theory Spec2Isabelle
  imports Main "HOL-Library.Word"
begin

unbundle bit_operations_syntax

section \<open>Strings and bytes\<close>

text \<open>
  A JavaScript string is a sequence of 16-bit code units; \<open>value.length\<close> counts code
  units and a regular expression without the \<open>u\<close> flag sees code units. A Node
  \<open>Buffer\<close> is a sequence of bytes.
\<close>

type_synonym unit16 = "16 word"
type_synonym jsstring = "unit16 list"
type_synonym byte = "8 word"

text \<open>ASCII literals of the source, written as HOL strings.\<close>

definition js :: "string \<Rightarrow> jsstring" where
  "js s = map (\<lambda>c. of_nat (of_char c)) s"

definition is_digit :: "unit16 \<Rightarrow> bool" where
  "is_digit u = (0x30 \<le> u \<and> u \<le> 0x39)"

definition is_upper :: "unit16 \<Rightarrow> bool" where
  "is_upper u = (0x41 \<le> u \<and> u \<le> 0x5A)"

definition is_lower :: "unit16 \<Rightarrow> bool" where
  "is_lower u = (0x61 \<le> u \<and> u \<le> 0x7A)"

text \<open>\<open>s.startsWith(p)\<close>, and an unanchored search for the literal \<open>p\<close> in \<open>s\<close>.\<close>

definition starts_with :: "jsstring \<Rightarrow> jsstring \<Rightarrow> bool" where
  "starts_with p s = (take (length p) s = p)"

fun includes_str :: "jsstring \<Rightarrow> jsstring \<Rightarrow> bool" where
  "includes_str p [] = (p = [])"
| "includes_str p (c # cs) = (starts_with p (c # cs) \<or> includes_str p cs)"

section \<open>UTF-8, hexadecimal and \<open>split\<close>\<close>

text \<open>
  \<open>cipher.update(val, "utf8")\<close> and \<open>update(secret)\<close> encode a string as UTF-8: a
  surrogate pair is one code point of four bytes, and a surrogate that is not part of a
  pair is written as U+FFFD (\<open>EF BF BD\<close>).
\<close>

definition is_high_surrogate :: "unit16 \<Rightarrow> bool" where
  "is_high_surrogate u = (0xD800 \<le> u \<and> u \<le> 0xDBFF)"

definition is_low_surrogate :: "unit16 \<Rightarrow> bool" where
  "is_low_surrogate u = (0xDC00 \<le> u \<and> u \<le> 0xDFFF)"

definition utf8_of_code_point :: "nat \<Rightarrow> byte list" where
  "utf8_of_code_point c =
     (if c < 0x80 then [of_nat c]
      else if c < 0x800 then [of_nat (0xC0 + c div 64), of_nat (0x80 + c mod 64)]
      else if c < 0x10000 then
        [of_nat (0xE0 + c div 4096), of_nat (0x80 + c div 64 mod 64), of_nat (0x80 + c mod 64)]
      else
        [of_nat (0xF0 + c div 262144), of_nat (0x80 + c div 4096 mod 64),
         of_nat (0x80 + c div 64 mod 64), of_nat (0x80 + c mod 64)])"

definition code_point_of_pair :: "unit16 \<Rightarrow> unit16 \<Rightarrow> nat" where
  "code_point_of_pair h l = 0x10000 + (unat h - 0xD800) * 1024 + (unat l - 0xDC00)"

fun utf8_encode :: "jsstring \<Rightarrow> byte list" where
  "utf8_encode [] = []"
| "utf8_encode [u] =
     (if is_high_surrogate u \<or> is_low_surrogate u then [0xEF, 0xBF, 0xBD]
      else utf8_of_code_point (unat u))"
| "utf8_encode (u # l # us) =
     (if is_high_surrogate u \<and> is_low_surrogate l
        then utf8_of_code_point (code_point_of_pair u l) @ utf8_encode us
      else if is_high_surrogate u \<or> is_low_surrogate u
        then [0xEF, 0xBF, 0xBD] @ utf8_encode (l # us)
      else utf8_of_code_point (unat u) @ utf8_encode (l # us))"

text \<open>
  \<open>buffer.toString("utf8")\<close> decodes with replacement and never throws: each maximal
  ill-formed prefix becomes one U+FFFD and decoding resumes at the byte that broke the
  sequence. Overlong forms, surrogates and values above U+10FFFF are excluded by the
  bounds on the second byte.
\<close>

definition units_of_code_point :: "nat \<Rightarrow> jsstring" where
  "units_of_code_point c =
     (if c < 0x10000 then [of_nat c]
      else [of_nat (0xD800 + (c - 0x10000) div 1024), of_nat (0xDC00 + (c - 0x10000) mod 1024)])"

definition is_cont :: "byte \<Rightarrow> bool" where
  "is_cont b = (0x80 \<le> b \<and> b \<le> 0xBF)"

definition second_ok :: "byte \<Rightarrow> byte \<Rightarrow> bool" where
  "second_ok lead b =
     ((if lead = 0xE0 then 0xA0 else if lead = 0xF0 then 0x90 else 0x80) \<le> b \<and>
      b \<le> (if lead = 0xED then 0x9F else if lead = 0xF4 then 0x8F else 0xBF))"

definition cont_bits :: "byte \<Rightarrow> nat" where
  "cont_bits b = unat b - 0x80"

fun utf8_decode :: "byte list \<Rightarrow> jsstring" where
  "utf8_decode [] = []"
| "utf8_decode (b # bs) =
     (if b < 0x80 then of_nat (unat b) # utf8_decode bs
      else if 0xC2 \<le> b \<and> b \<le> 0xDF then
        (case bs of [] \<Rightarrow> [0xFFFD]
         | b1 # r1 \<Rightarrow>
            if is_cont b1
              then units_of_code_point ((unat b - 0xC0) * 64 + cont_bits b1) @ utf8_decode r1
            else 0xFFFD # utf8_decode bs)
      else if 0xE0 \<le> b \<and> b \<le> 0xEF then
        (case bs of [] \<Rightarrow> [0xFFFD]
         | b1 # r1 \<Rightarrow>
            if second_ok b b1 then
              (case r1 of [] \<Rightarrow> [0xFFFD]
               | b2 # r2 \<Rightarrow>
                  if is_cont b2
                    then units_of_code_point
                           ((unat b - 0xE0) * 4096 + cont_bits b1 * 64 + cont_bits b2)
                         @ utf8_decode r2
                  else 0xFFFD # utf8_decode r1)
            else 0xFFFD # utf8_decode bs)
      else if 0xF0 \<le> b \<and> b \<le> 0xF4 then
        (case bs of [] \<Rightarrow> [0xFFFD]
         | b1 # r1 \<Rightarrow>
            if second_ok b b1 then
              (case r1 of [] \<Rightarrow> [0xFFFD]
               | b2 # r2 \<Rightarrow>
                  if is_cont b2 then
                    (case r2 of [] \<Rightarrow> [0xFFFD]
                     | b3 # r3 \<Rightarrow>
                        if is_cont b3
                          then units_of_code_point
                                 ((unat b - 0xF0) * 262144 + cont_bits b1 * 4096
                                  + cont_bits b2 * 64 + cont_bits b3)
                               @ utf8_decode r3
                        else 0xFFFD # utf8_decode r2)
                  else 0xFFFD # utf8_decode r1)
            else 0xFFFD # utf8_decode bs)
      else 0xFFFD # utf8_decode bs)"

text \<open>
  \<open>buffer.toString("hex")\<close> writes two lower-case digits per byte.
  \<open>Buffer.from(s, "hex")\<close> reads pairs of digits of either case and stops, without an
  error, at the first pair that is not two hexadecimal digits; a trailing single
  character is dropped.
\<close>

definition hex_digit :: "nat \<Rightarrow> unit16" where
  "hex_digit d = (if d < 10 then of_nat (0x30 + d) else of_nat (0x61 + (d - 10)))"

definition hex_encode :: "byte list \<Rightarrow> jsstring" where
  "hex_encode bs = concat (map (\<lambda>b. [hex_digit (unat b div 16), hex_digit (unat b mod 16)]) bs)"

definition unhex :: "unit16 \<Rightarrow> nat option" where
  "unhex u =
     (if 0x30 \<le> u \<and> u \<le> 0x39 then Some (unat u - 0x30)
      else if 0x61 \<le> u \<and> u \<le> 0x66 then Some (unat u - 0x61 + 10)
      else if 0x41 \<le> u \<and> u \<le> 0x46 then Some (unat u - 0x41 + 10)
      else None)"

fun hex_decode :: "jsstring \<Rightarrow> byte list" where
  "hex_decode (a # b # r) =
     (case (unhex a, unhex b) of
        (Some x, Some y) \<Rightarrow> of_nat (16 * x + y) # hex_decode r
      | _ \<Rightarrow> [])"
| "hex_decode _ = []"

text \<open>\<open>s.split(sep)\<close> for a one-unit separator: never empty, one more piece than separators.\<close>

fun split :: "unit16 \<Rightarrow> jsstring \<Rightarrow> jsstring list" where
  "split sep [] = [[]]"
| "split sep (c # cs) =
     (if c = sep then [] # split sep cs
      else (case split sep cs of [] \<Rightarrow> [[c]] | p # ps \<Rightarrow> (c # p) # ps))"

definition colon :: unit16 where
  "colon = 0x3A"

section \<open>The runtime\<close>

text \<open>
  What the source takes from the platform and is not given by a few lines of arithmetic is
  a parameter of the model:
  \<^item> \<open>toLowerCase\<close>: \<open>String.prototype.toLowerCase\<close> (the Unicode case tables);
  \<^item> \<open>sha256\<close>: \<open>createHash("sha256").update(bytes).digest()\<close>; \<open>'k\<close> is the type of
    32-byte digests, which are the AES-256 keys;
  \<^item> \<open>aes256ctr key iv i\<close>: byte \<open>i\<close> of the key stream of AES-256 in counter mode under
    \<open>key\<close> with the 16-byte initial counter block \<open>iv\<close>;
  \<^item> \<open>regexp_g p\<close>: \<open>new RegExp(p, "g")\<close>, \<open>None\<close> when the pattern does not compile
    (a \<open>SyntaxError\<close>), else the function that gives, for a subject string, the
    successive matches found from index 0 as pairs (index, length).
  Every theorem below holds for all runtimes unless it names one.
\<close>

record 'k runtime =
  toLowerCase :: "jsstring \<Rightarrow> jsstring"
  sha256 :: "byte list \<Rightarrow> 'k"
  aes256ctr :: "'k \<Rightarrow> byte list \<Rightarrow> nat \<Rightarrow> byte"
  regexp_g :: "jsstring \<Rightarrow> (jsstring \<Rightarrow> (nat \<times> nat) list) option"

text \<open>
  The exceptions of the source: \<open>TypeError\<close> (a method called on \<open>undefined\<close>,
  \<open>Buffer.from(undefined, "hex")\<close>), \<open>SyntaxError\<close> (\<open>new RegExp\<close> of an invalid
  pattern), \<open>InvalidIV\<close> (\<open>createCipheriv\<close>/\<open>createDecipheriv\<close> with an IV that is not
  16 bytes long) and \<open>SecretRequired\<close> (the constructor's own \<open>Error\<close>).
\<close>

datatype js_error = TypeError | SyntaxError | InvalidIV | SecretRequired

section \<open>The PII classifier\<close>

datatype PiiType = pan_card | credit_card | cvv | password | email | phone | aadhar | custom

text \<open>
  \<open>luhnAlgorithm\<close>: the loop runs from the last code unit to the first.
  \<open>parseInt(num[i], 10)\<close> of a one-unit string is the digit's value for an ASCII digit
  and \<open>NaN\<close> for anything else; \<open>NaN\<close> is \<open>None\<close> here. Once \<open>sum\<close> is \<open>NaN\<close> it
  stays so, and \<open>NaN % 10 === 0\<close> is false.
\<close>

definition parseInt10 :: "unit16 \<Rightarrow> nat option" where
  "parseInt10 u = (if is_digit u then Some (unat u - 0x30) else None)"

fun luhn_loop :: "jsstring \<Rightarrow> nat option \<Rightarrow> bool \<Rightarrow> nat option" where
  "luhn_loop [] sm alt = sm"
| "luhn_loop (c # cs) sm alt =
     (let n = parseInt10 c;
          n = (if alt then (case n of None \<Rightarrow> None
                            | Some d \<Rightarrow> Some (if 2 * d > 9 then 2 * d - 9 else 2 * d))
               else n);
          sm = (case (sm, n) of (Some s, Some d) \<Rightarrow> Some (s + d) | _ \<Rightarrow> None)
      in luhn_loop cs sm (\<not> alt))"

definition luhnAlgorithm :: "jsstring \<Rightarrow> bool" where
  "luhnAlgorithm num =
     (case luhn_loop (rev num) (Some 0) False of None \<Rightarrow> False | Some s \<Rightarrow> s mod 10 = 0)"

text \<open>The value patterns of \<open>detectPatternToSanitize\<close>, one definition per regular expression.\<close>

definition re_pan :: "jsstring \<Rightarrow> bool" where
  \<comment> \<open>\<open>/^[A-Z]{5}\d{4}[A-Z]$/\<close>\<close>
  "re_pan v = (length v = 10 \<and> list_all is_upper (take 5 v)
                \<and> list_all is_digit (take 4 (drop 5 v)) \<and> list_all is_upper (drop 9 v))"

definition re_digits_prefix :: "nat \<Rightarrow> jsstring \<Rightarrow> bool" where
  \<comment> \<open>\<open>/^\d{n}/\<close>\<close>
  "re_digits_prefix n v = (n \<le> length v \<and> list_all is_digit (take n v))"

fun re_digit_run :: "jsstring \<Rightarrow> bool" where
  \<comment> \<open>\<open>/\d{2,4}/\<close>, unanchored: two adjacent digits somewhere\<close>
  "re_digit_run (a # b # r) = ((is_digit a \<and> is_digit b) \<or> re_digit_run (b # r))"
| "re_digit_run _ = False"

definition is_local_char :: "unit16 \<Rightarrow> bool" where
  \<comment> \<open>\<open>[a-zA-Z0-9._%+-]\<close>\<close>
  "is_local_char u = (is_lower u \<or> is_upper u \<or> is_digit u
                       \<or> u = 0x2E \<or> u = 0x5F \<or> u = 0x25 \<or> u = 0x2B \<or> u = 0x2D)"

definition is_alnum :: "unit16 \<Rightarrow> bool" where
  "is_alnum u = (is_lower u \<or> is_upper u \<or> is_digit u)"

definition is_alpha :: "unit16 \<Rightarrow> bool" where
  "is_alpha u = (is_lower u \<or> is_upper u)"

definition re_email :: "jsstring \<Rightarrow> bool" where
  \<comment> \<open>\<open>/^[a-zA-Z0-9._%+-]+@[a-zA-Z0-9]+\.[a-zA-Z]{2,}$/\<close>. No class contains the
      character that follows it, so each greedy run ends at a determined place.\<close>
  "re_email v =
     (let local = takeWhile is_local_char v; r1 = dropWhile is_local_char v
      in local \<noteq> [] \<and>
         (case r1 of [] \<Rightarrow> False
          | a # r2 \<Rightarrow> a = 0x40 \<and>
             (let dom = takeWhile is_alnum r2; r3 = dropWhile is_alnum r2
              in dom \<noteq> [] \<and>
                 (case r3 of [] \<Rightarrow> False
                  | d # tld \<Rightarrow> d = 0x2E \<and> 2 \<le> length tld \<and> list_all is_alpha tld))))"

text \<open>
  \<open>detectPatternToSanitize(key, value)\<close>. The key is \<open>None\<close> when the caller passes
  \<open>undefined\<close>; \<open>key.toLowerCase()\<close> then throws a \<open>TypeError\<close>.
\<close>

definition detectPatternToSanitize ::
  "'k runtime \<Rightarrow> jsstring option \<Rightarrow> jsstring \<Rightarrow> js_error + PiiType" where
  "detectPatternToSanitize rt key val =
     (case key of None \<Rightarrow> Inl TypeError
      | Some k \<Rightarrow>
         (let lowerKey = toLowerCase rt k in
          if re_pan val \<or> includes_str (js ''pan'') lowerKey \<or> includes_str (js ''pan_card'') lowerKey
            then Inr pan_card
          else if re_digits_prefix 10 val \<or> includes_str (js ''mobile'') lowerKey
                  \<or> includes_str (js ''phone'') lowerKey
            then Inr phone
          else if re_digits_prefix 12 val
            then Inr aadhar
          else if includes_str (js ''cvv'') lowerKey \<or> includes_str (js ''cvc'') lowerKey
                  \<or> includes_str (js ''cvn'') lowerKey \<or> includes_str (js ''cid'') lowerKey
                  \<or> re_digit_run val
            then Inr cvv
          else if re_email val
            then Inr email
          else if includes_str (js ''password'') lowerKey \<or> includes_str (js ''pwd'') lowerKey
                  \<or> includes_str (js ''passphrase'') lowerKey
            then Inr password
          else if includes_str (js ''credit'') lowerKey \<or> includes_str (js ''debit'') lowerKey
                  \<or> (length val > 13 \<and> length val < 19 \<and> luhnAlgorithm val)
            then Inr credit_card
          else Inr custom))"

section \<open>Configuration and values\<close>

text \<open>
  \<open>PiiSanitizerConfig\<close>. An optional field that is absent is \<open>None\<close>. A route list
  may hold strings and \<open>RegExp\<close> objects; \<open>includes(route)\<close> compares with the route
  string, so a \<open>RegExp\<close> entry never equals it.
\<close>

datatype route_entry = RouteString jsstring | RouteRegExp jsstring

record PiiSanitizerConfig =
  signingSecret :: jsstring
  allowlistRoutes :: "route_entry list option"
  denylistRoutes :: "route_entry list option"
  disable :: "bool option"
  regexToSanitize :: "jsstring list option"
  detectors :: "PiiType option"
  fieldsToSanitize :: "jsstring list option"
  fieldsToSkip :: "jsstring list option"
  maxStringScanLen :: "nat option"

text \<open>The constructor: \<open>if (!this.cfg?.signingSecret) throw new Error(...)\<close>.\<close>

definition new_Sanitizer :: "PiiSanitizerConfig \<Rightarrow> js_error + PiiSanitizerConfig" where
  "new_Sanitizer cfg = (if signingSecret cfg = [] then Inl SecretRequired else Inr cfg)"

text \<open>
  A parsed JSON body, and \<open>undefined\<close>, which \<open>walk\<close> can return. The entries of an
  object are in the order \<open>Object.entries\<close> lists them. The payload \<open>'n\<close> of a number
  is never inspected.
\<close>

datatype 'n json =
    JObject "(jsstring \<times> 'n json) list"
  | JArray "'n json list"
  | JString jsstring
  | JNumber 'n
  | JBool bool
  | JNull
  | JUndefined

text \<open>
  \<open>out[k] = v\<close> on an object that started as \<open>{}\<close>: an existing key keeps its place, a
  new key goes last. The key \<open>__proto__\<close> is the accessor inherited from
  \<open>Object.prototype\<close>: the assignment sets or leaves the prototype and creates no own
  property, so the entries are as before.
\<close>

fun update_entry :: "jsstring \<Rightarrow> 'v \<Rightarrow> (jsstring \<times> 'v) list \<Rightarrow> (jsstring \<times> 'v) list" where
  "update_entry k v [] = [(k, v)]"
| "update_entry k v (p # ps) = (if fst p = k then (k, v) # ps else p # update_entry k v ps)"

definition assign :: "(jsstring \<times> 'v) list \<Rightarrow> jsstring \<Rightarrow> 'v \<Rightarrow> (jsstring \<times> 'v) list" where
  "assign out k v = (if k = js ''__proto__'' then out else update_entry k v out)"

section \<open>The reversible codec\<close>

text \<open>
  \<open>randomBytes(n)\<close> draws from the system's generator. The generator's future output is
  the state \<open>g\<close>: the draw takes its first \<open>n\<close> bytes and leaves the rest.
\<close>

type_synonym rng = "nat \<Rightarrow> byte"

definition randomBytes :: "nat \<Rightarrow> rng \<Rightarrow> byte list \<times> rng" where
  "randomBytes n g = (map g [0..<n], (\<lambda>i. g (i + n)))"

definition getKey :: "'k runtime \<Rightarrow> PiiSanitizerConfig \<Rightarrow> 'k" where
  "getKey rt cfg = sha256 rt (utf8_encode (signingSecret cfg))"

text \<open>
  \<open>createCipheriv("aes-256-ctr", key, iv)\<close> and \<open>createDecipheriv\<close> of the same
  arguments: both throw unless the IV has 16 bytes, and give the key stream otherwise.
  In counter mode \<open>update\<close> followed by \<open>final\<close> is the data XOR the key stream, for the
  cipher and for the decipher, and cannot fail.
\<close>

definition createCipheriv :: "'k runtime \<Rightarrow> 'k \<Rightarrow> byte list \<Rightarrow> js_error + (nat \<Rightarrow> byte)" where
  "createCipheriv rt key iv = (if length iv = 16 then Inr (aes256ctr rt key iv) else Inl InvalidIV)"

definition createDecipheriv :: "'k runtime \<Rightarrow> 'k \<Rightarrow> byte list \<Rightarrow> js_error + (nat \<Rightarrow> byte)" where
  "createDecipheriv rt key iv = (if length iv = 16 then Inr (aes256ctr rt key iv) else Inl InvalidIV)"

definition update_final :: "(nat \<Rightarrow> byte) \<Rightarrow> byte list \<Rightarrow> byte list" where
  "update_final ks data = map (\<lambda>(i, b). b XOR ks i) (zip [0..<length data] data)"

definition encodeValue ::
  "'k runtime \<Rightarrow> PiiSanitizerConfig \<Rightarrow> jsstring \<Rightarrow> rng \<Rightarrow> js_error + (jsstring \<times> rng)" where
  "encodeValue rt cfg val g =
     (let (iv, g') = randomBytes 16 g;
          key = getKey rt cfg
      in case createCipheriv rt key iv of
           Inl e \<Rightarrow> Inl e
         | Inr cipher \<Rightarrow>
            (let encrypted = update_final cipher (utf8_encode val);
                 encryptedValue = hex_encode iv @ [colon] @ hex_encode encrypted
             in Inr (encryptedValue, g')))"

text \<open>
  \<open>decodeValue\<close>: \<open>const [ivHex, encryptedHex] = data.split(":")\<close> takes the first two
  pieces and ignores any further ones. \<open>Buffer.from(ivHex, "hex")\<close> is evaluated
  first; with no colon in \<open>data\<close>, \<open>encryptedHex\<close> is \<open>undefined\<close> and
  \<open>Buffer.from(undefined, "hex")\<close> throws a \<open>TypeError\<close>.
\<close>

definition decodeValue :: "'k runtime \<Rightarrow> PiiSanitizerConfig \<Rightarrow> jsstring \<Rightarrow> js_error + jsstring" where
  "decodeValue rt cfg data =
     (case split colon data of
        ivHex # encryptedHex # _ \<Rightarrow>
          (let iv = hex_decode ivHex;
               encryptedText = hex_decode encryptedHex
           in case createDecipheriv rt (getKey rt cfg) iv of
                Inl e \<Rightarrow> Inl e
              | Inr decipher \<Rightarrow> Inr (utf8_decode (update_final decipher encryptedText)))
      | _ \<Rightarrow> Inl TypeError)"

definition maskPattern ::
  "'k runtime \<Rightarrow> PiiSanitizerConfig \<Rightarrow> PiiType \<Rightarrow> jsstring \<Rightarrow> rng \<Rightarrow> js_error + (jsstring \<times> rng)" where
  "maskPattern rt cfg piiType val g =
     (case piiType of
        aadhar \<Rightarrow> encodeValue rt cfg val g
      | credit_card \<Rightarrow> encodeValue rt cfg val g
      | email \<Rightarrow> encodeValue rt cfg val g
      | cvv \<Rightarrow> encodeValue rt cfg val g
      | pan_card \<Rightarrow> encodeValue rt cfg val g
      | password \<Rightarrow> encodeValue rt cfg val g
      | phone \<Rightarrow> encodeValue rt cfg val g
      | custom \<Rightarrow> encodeValue rt cfg val g)"

section \<open>The tree walker\<close>

text \<open>
  \<open>val.replace(re, fn)\<close> for a global \<open>re\<close> whose matches in \<open>val\<close> are \<open>ms\<close>. The
  callback runs once per match, in order. A match that starts before the end of the
  previous replacement is skipped; the text between replacements and after the last one
  is copied.
\<close>

fun replace_loop ::
  "(jsstring \<Rightarrow> rng \<Rightarrow> js_error + (jsstring \<times> rng)) \<Rightarrow> jsstring \<Rightarrow> (nat \<times> nat) list
     \<Rightarrow> nat \<Rightarrow> jsstring \<Rightarrow> rng \<Rightarrow> js_error + (jsstring \<times> rng)" where
  "replace_loop fn val [] nextPos acc g =
     Inr (if nextPos \<ge> length val then acc else acc @ drop nextPos val, g)"
| "replace_loop fn val ((idx, len) # ms) nextPos acc g =
     (let matched = take len (drop idx val);
          position = min idx (length val)
      in case fn matched g of
           Inl e \<Rightarrow> Inl e
         | Inr (replacement, g') \<Rightarrow>
            if position \<ge> nextPos
              then replace_loop fn val ms (position + length matched)
                     (acc @ take (position - nextPos) (drop nextPos val) @ replacement) g'
            else replace_loop fn val ms nextPos acc g')"

definition replace_fn ::
  "jsstring \<Rightarrow> (nat \<times> nat) list \<Rightarrow> (jsstring \<Rightarrow> rng \<Rightarrow> js_error + (jsstring \<times> rng))
     \<Rightarrow> rng \<Rightarrow> js_error + (jsstring \<times> rng)" where
  "replace_fn val ms fn g = replace_loop fn val ms 0 [] g"

text \<open>
  The loop over \<open>regexToSanitize\<close>. \<open>None\<close>: the loop ended with no pattern matching,
  and \<open>walk\<close> goes on to its next rule. \<open>re.test(val)\<close> on the fresh global \<open>re\<close> is
  true when there is a match in \<open>val\<close>; \<open>replace\<close> starts again from index 0.
\<close>

fun regex_loop ::
  "'k runtime \<Rightarrow> PiiSanitizerConfig \<Rightarrow> jsstring list \<Rightarrow> jsstring \<Rightarrow> rng
     \<Rightarrow> (js_error + (jsstring \<times> rng)) option" where
  "regex_loop rt cfg [] val g = None"
| "regex_loop rt cfg (reStr # rest) val g =
     (case regexp_g rt reStr of
        None \<Rightarrow> Some (Inl SyntaxError)
      | Some re \<Rightarrow>
         if re val \<noteq> []
           then Some (replace_fn val (re val) (\<lambda>m. maskPattern rt cfg custom m) g)
         else regex_loop rt cfg rest val g)"

text \<open>
  The string branch of \<open>walk\<close>. \<open>path[path.length - 1]\<close> is \<open>undefined\<close> for the empty
  path; \<open>includes(undefined)\<close> is false on a list of strings.
\<close>

definition last_key :: "jsstring list \<Rightarrow> jsstring option" where
  "last_key path = (if path = [] then None else Some (last path))"

definition includes_key :: "jsstring list option \<Rightarrow> jsstring option \<Rightarrow> bool" where
  "includes_key names key =
     (case names of None \<Rightarrow> False
      | Some fs \<Rightarrow> (case key of None \<Rightarrow> False | Some k \<Rightarrow> k \<in> set fs))"

definition walk_string ::
  "'k runtime \<Rightarrow> PiiSanitizerConfig \<Rightarrow> jsstring \<Rightarrow> jsstring list \<Rightarrow> rng
     \<Rightarrow> js_error + (jsstring \<times> rng)" where
  "walk_string rt cfg val path g =
     (let key = last_key path in
      if includes_key (fieldsToSkip cfg) key then Inr (val, g)
      else
        (case (case regexToSanitize cfg of None \<Rightarrow> None
               | Some res \<Rightarrow> regex_loop rt cfg res val g) of
           Some r \<Rightarrow> r
         | None \<Rightarrow>
            (case fieldsToSanitize cfg of
               Some fs \<Rightarrow>
                 if includes_key (Some fs) key then
                   (case detectPatternToSanitize rt key val of
                      Inl e \<Rightarrow> Inl e
                    | Inr piiType \<Rightarrow> maskPattern rt cfg piiType val g)
                 else Inr (val, g)
             | None \<Rightarrow>
                 (case detectPatternToSanitize rt key val of
                    Inl e \<Rightarrow> Inl e
                  | Inr piiType \<Rightarrow>
                     if piiType \<noteq> custom then maskPattern rt cfg piiType val g
                     else Inr (val, g)))))"

text \<open>
  \<open>walk\<close>: a non-array object is rebuilt entry by entry; a string goes through the
  rules above; for every other value neither \<open>if\<close> applies and the function ends
  without a \<open>return\<close>, so the result is \<open>undefined\<close>.
\<close>

fun walk ::
  "'k runtime \<Rightarrow> PiiSanitizerConfig \<Rightarrow> 'n json \<Rightarrow> jsstring list \<Rightarrow> rng
     \<Rightarrow> js_error + ('n json \<times> rng)"
and walk_entries ::
  "'k runtime \<Rightarrow> PiiSanitizerConfig \<Rightarrow> (jsstring \<times> 'n json) list \<Rightarrow> jsstring list
     \<Rightarrow> (jsstring \<times> 'n json) list \<Rightarrow> rng \<Rightarrow> js_error + ((jsstring \<times> 'n json) list \<times> rng)" where
  "walk rt cfg (JObject kvs) path g =
     (case walk_entries rt cfg kvs path [] g of
        Inl e \<Rightarrow> Inl e
      | Inr (out, g') \<Rightarrow> Inr (JObject out, g'))"
| "walk rt cfg (JString val) path g =
     (case walk_string rt cfg val path g of
        Inl e \<Rightarrow> Inl e
      | Inr (s, g') \<Rightarrow> Inr (JString s, g'))"
| "walk rt cfg (JArray xs) path g = Inr (JUndefined, g)"
| "walk rt cfg (JNumber n) path g = Inr (JUndefined, g)"
| "walk rt cfg (JBool b) path g = Inr (JUndefined, g)"
| "walk rt cfg JNull path g = Inr (JUndefined, g)"
| "walk rt cfg JUndefined path g = Inr (JUndefined, g)"
| "walk_entries rt cfg [] path out g = Inr (out, g)"
| "walk_entries rt cfg ((k, v) # kvs) path out g =
     (case walk rt cfg v (path @ [k]) g of
        Inl e \<Rightarrow> Inl e
      | Inr (v', g') \<Rightarrow> walk_entries rt cfg kvs path (assign out k v') g')"

definition route_includes :: "route_entry list \<Rightarrow> jsstring \<Rightarrow> bool" where
  "route_includes routes route = (RouteString route \<in> set routes)"

definition sanitizeObject ::
  "'k runtime \<Rightarrow> PiiSanitizerConfig \<Rightarrow> 'n json \<Rightarrow> jsstring \<Rightarrow> rng \<Rightarrow> js_error + ('n json \<times> rng)" where
  "sanitizeObject rt cfg obj route g =
     (if disable cfg = Some True then Inr (obj, g)
      else if (case allowlistRoutes cfg of None \<Rightarrow> False | Some al \<Rightarrow> \<not> route_includes al route)
        then Inr (obj, g)
      else if (case denylistRoutes cfg of None \<Rightarrow> False | Some dl \<Rightarrow> route_includes dl route)
        then Inr (obj, g)
      else walk rt cfg obj [] g)"

section \<open>The decode walker\<close>

fun decodeBody :: "'k runtime \<Rightarrow> PiiSanitizerConfig \<Rightarrow> 'n json \<Rightarrow> js_error + 'n json"
and decode_entries ::
  "'k runtime \<Rightarrow> PiiSanitizerConfig \<Rightarrow> (jsstring \<times> 'n json) list \<Rightarrow> (jsstring \<times> 'n json) list
     \<Rightarrow> js_error + (jsstring \<times> 'n json) list"
and decode_items :: "'k runtime \<Rightarrow> PiiSanitizerConfig \<Rightarrow> 'n json list \<Rightarrow> js_error + 'n json list" where
  "decodeBody rt cfg (JObject kvs) =
     (case decode_entries rt cfg kvs [] of Inl e \<Rightarrow> Inl e | Inr out \<Rightarrow> Inr (JObject out))"
| "decodeBody rt cfg (JArray xs) =
     (case decode_items rt cfg xs of Inl e \<Rightarrow> Inl e | Inr ys \<Rightarrow> Inr (JArray ys))"
| "decodeBody rt cfg (JString s) =
     (if colon \<in> set s
        then (case decodeValue rt cfg s of Inl e \<Rightarrow> Inl e | Inr d \<Rightarrow> Inr (JString d))
      else Inr (JString s))"
| "decodeBody rt cfg (JNumber n) = Inr (JNumber n)"
| "decodeBody rt cfg (JBool b) = Inr (JBool b)"
| "decodeBody rt cfg JNull = Inr JNull"
| "decodeBody rt cfg JUndefined = Inr JUndefined"
| "decode_entries rt cfg [] out = Inr out"
| "decode_entries rt cfg ((k, v) # kvs) out =
     (case decodeBody rt cfg v of
        Inl e \<Rightarrow> Inl e
      | Inr v' \<Rightarrow> decode_entries rt cfg kvs (assign out k v'))"
| "decode_items rt cfg [] = Inr []"
| "decode_items rt cfg (x # xs) =
     (case decodeBody rt cfg x of
        Inl e \<Rightarrow> Inl e
      | Inr y \<Rightarrow> (case decode_items rt cfg xs of Inl e \<Rightarrow> Inl e | Inr ys \<Rightarrow> Inr (y # ys)))"

section \<open>Predicates used in the statements\<close>

text \<open>The route passes the three guards of \<open>sanitizeObject\<close>.\<close>

definition route_in_scope :: "PiiSanitizerConfig \<Rightarrow> jsstring \<Rightarrow> bool" where
  "route_in_scope cfg route =
     (disable cfg \<noteq> Some True \<and>
      (case allowlistRoutes cfg of None \<Rightarrow> True | Some al \<Rightarrow> route_includes al route) \<and>
      (case denylistRoutes cfg of None \<Rightarrow> True | Some dl \<Rightarrow> \<not> route_includes dl route))"

text \<open>Every configured pattern compiles and has no match in the value.\<close>

definition regex_patterns :: "PiiSanitizerConfig \<Rightarrow> jsstring list" where
  "regex_patterns cfg = (case regexToSanitize cfg of None \<Rightarrow> [] | Some res \<Rightarrow> res)"

definition pattern_misses :: "'k runtime \<Rightarrow> jsstring \<Rightarrow> jsstring \<Rightarrow> bool" where
  "pattern_misses rt val p = (case regexp_g rt p of None \<Rightarrow> False | Some re \<Rightarrow> re val = [])"

definition no_pattern_matches :: "'k runtime \<Rightarrow> PiiSanitizerConfig \<Rightarrow> jsstring \<Rightarrow> bool" where
  "no_pattern_matches rt cfg val = list_all (pattern_misses rt val) (regex_patterns cfg)"

text \<open>
  The token of a value: the IV drawn from the generator in hexadecimal, a colon, and the
  hexadecimal of the UTF-8 of the value XOR the key stream.
\<close>

definition token_of :: "'k runtime \<Rightarrow> PiiSanitizerConfig \<Rightarrow> jsstring \<Rightarrow> byte list \<Rightarrow> jsstring" where
  "token_of rt cfg val iv =
     hex_encode iv @ [colon]
       @ hex_encode (update_final (aes256ctr rt (getKey rt cfg) iv) (utf8_encode val))"

text \<open>Encoding a value and decoding the token straight away.\<close>

definition round_trip ::
  "'k runtime \<Rightarrow> PiiSanitizerConfig \<Rightarrow> jsstring \<Rightarrow> rng \<Rightarrow> js_error + jsstring" where
  "round_trip rt cfg s g =
     (case encodeValue rt cfg s g of
        Inl e \<Rightarrow> Inl e
      | Inr (tok, g') \<Rightarrow> decodeValue rt cfg tok)"

text \<open>Every surrogate of the string is half of a pair: the string is well-formed UTF-16.\<close>

fun well_formed_utf16 :: "jsstring \<Rightarrow> bool" where
  "well_formed_utf16 [] = True"
| "well_formed_utf16 [u] = (\<not> is_high_surrogate u \<and> \<not> is_low_surrogate u)"
| "well_formed_utf16 (u # l # us) =
     (if is_high_surrogate u then is_low_surrogate l \<and> well_formed_utf16 us
      else \<not> is_low_surrogate u \<and> well_formed_utf16 (l # us))"

text \<open>
  The spec's reading of the regular-expression rule, to compare with \<open>replace_fn\<close>. The
  value is cut at the matches into pieces, alternately text that no match covers and the
  text of a match; masking keeps the first kind verbatim and puts the token of each match,
  with a fresh IV, in place of the second.
\<close>

datatype piece = Kept jsstring | Matched jsstring

fun plain :: "piece \<Rightarrow> jsstring" where
  "plain (Kept s) = s"
| "plain (Matched m) = m"

fun pieces :: "jsstring \<Rightarrow> nat \<Rightarrow> (nat \<times> nat) list \<Rightarrow> piece list" where
  "pieces val pos [] = [Kept (drop pos val)]"
| "pieces val pos ((i, n) # ms) =
     Kept (take (i - pos) (drop pos val)) # Matched (take n (drop i val)) # pieces val (i + n) ms"

fun mask_pieces :: "'k runtime \<Rightarrow> PiiSanitizerConfig \<Rightarrow> piece list \<Rightarrow> rng \<Rightarrow> jsstring \<times> rng" where
  "mask_pieces rt cfg [] g = ([], g)"
| "mask_pieces rt cfg (Kept s # ps) g =
     (let (out, g') = mask_pieces rt cfg ps g in (s @ out, g'))"
| "mask_pieces rt cfg (Matched m # ps) g =
     (let (iv, g1) = randomBytes 16 g;
          (out, g') = mask_pieces rt cfg ps g1
      in (token_of rt cfg m iv @ out, g'))"

text \<open>
  What a regular-expression engine returns for a global search: the matches lie inside
  the subject, in increasing order, none starting before the previous one ends.
\<close>

fun matches_in_order :: "nat \<Rightarrow> nat \<Rightarrow> (nat \<times> nat) list \<Rightarrow> bool" where
  "matches_in_order pos len [] = True"
| "matches_in_order pos len ((i, n) # ms) = (pos \<le> i \<and> i + n \<le> len \<and> matches_in_order (i + n) len ms)"

text \<open>The value of a result, without the generator.\<close>

definition result_value :: "js_error + ('a \<times> rng) \<Rightarrow> js_error + 'a" where
  "result_value r = (case r of Inl e \<Rightarrow> Inl e | Inr (v, g) \<Rightarrow> Inr v)"

section \<open>A runtime for worked examples\<close>

text \<open>
  The examples below are evaluated on a small runtime: lower-casing of ASCII letters, the
  identity as digest, a key stream mixed from the key, the IV and the position, and a
  pattern compiler that accepts only a non-empty run of letters and digits, which stands
  for its own text, and rejects everything else.
\<close>

definition ascii_lower :: "jsstring \<Rightarrow> jsstring" where
  "ascii_lower s = map (\<lambda>u. if is_upper u then u + 0x20 else u) s"

fun literal_matches :: "jsstring \<Rightarrow> jsstring \<Rightarrow> nat \<Rightarrow> nat \<Rightarrow> (nat \<times> nat) list" where
  "literal_matches p [] i skip = []"
| "literal_matches p (c # cs) i skip =
     (if skip = 0 \<and> starts_with p (c # cs)
        then (i, length p) # literal_matches p cs (i + 1) (length p - 1)
      else literal_matches p cs (i + 1) (skip - 1))"

definition literal_regexp :: "jsstring \<Rightarrow> (jsstring \<Rightarrow> (nat \<times> nat) list) option" where
  "literal_regexp p =
     (if p \<noteq> [] \<and> list_all is_alnum p then Some (\<lambda>s. literal_matches p s 0 0) else None)"

definition example_stream :: "byte list \<Rightarrow> byte list \<Rightarrow> nat \<Rightarrow> byte" where
  "example_stream key iv i =
     (if key = [] then 0 else key ! (i mod length key))
       XOR (if iv = [] then 0 else iv ! (i mod length iv)) XOR of_nat i"

definition example_runtime :: "(byte list) runtime" where
  "example_runtime =
     \<lparr> toLowerCase = ascii_lower, sha256 = (\<lambda>bs. bs), aes256ctr = example_stream,
       regexp_g = literal_regexp \<rparr>"

definition example_rng :: rng where
  "example_rng = (\<lambda>i. of_nat (17 * i + 5))"

definition base_config :: PiiSanitizerConfig where
  "base_config =
     \<lparr> signingSecret = js ''thisisseceretkeyforme'', allowlistRoutes = None,
       denylistRoutes = None, disable = None, regexToSanitize = None, detectors = None,
       fieldsToSanitize = None, fieldsToSkip = None, maxStringScanLen = None \<rparr>"

text \<open>Configurations of the worked examples.\<close>

definition skip_config :: PiiSanitizerConfig where
  "skip_config =
     base_config \<lparr> regexToSanitize := Some [js ''john''],
                   fieldsToSanitize := Some [js ''email''],
                   fieldsToSkip := Some [js ''email''] \<rparr>"

definition explicit_config :: PiiSanitizerConfig where
  "explicit_config = base_config \<lparr> fieldsToSanitize := Some [js ''password''] \<rparr>"

definition regex_config :: PiiSanitizerConfig where
  "regex_config =
     base_config \<lparr> regexToSanitize := Some [js ''zzz'', js ''secret'', js ''(''],
                   fieldsToSanitize := Some [js ''other''] \<rparr>"

definition capped_config :: PiiSanitizerConfig where
  "capped_config =
     base_config \<lparr> regexToSanitize := Some [js ''secret''], maxStringScanLen := Some 4 \<rparr>"

section \<open>Bytes, hexadecimal, UTF-8\<close>

lemma unat_byte_lt: "unat (b::byte) < 256"
  using unsigned_less [of b, where 'a=nat] by simp

lemma unat_unit_lt: "unat (u::unit16) < 65536"
  using unsigned_less [of u, where 'a=nat] by simp

lemma unat_of_nat_byte: "n < 256 \<Longrightarrow> unat (of_nat n :: byte) = n"
  by (simp add: unat_of_nat)

lemma unat_of_nat_unit: "n < 65536 \<Longrightarrow> unat (of_nat n :: unit16) = n"
  by (simp add: unat_of_nat)

lemma is_cont_nat: "is_cont b \<longleftrightarrow> 0x80 \<le> unat b \<and> unat b \<le> 0xBF"
  by (simp add: is_cont_def word_le_nat_alt)

lemma second_ok_nat:
  "second_ok lead b \<longleftrightarrow>
     (if unat lead = 0xE0 then 0xA0 else if unat lead = 0xF0 then 0x90 else 0x80) \<le> unat b \<and>
     unat b \<le> (if unat lead = 0xED then 0x9F else if unat lead = 0xF4 then 0x8F else 0xBF)"
  by (simp add: second_ok_def word_le_nat_alt word_unat_eq_iff)

lemma decode_1: "unat b < 0x80 \<Longrightarrow> utf8_decode (b # bs) = of_nat (unat b) # utf8_decode bs"
  by (simp add: word_less_nat_alt utf8_decode.simps)

lemma decode_2:
  assumes "0xC2 \<le> unat b" "unat b \<le> 0xDF" "is_cont b1"
  shows "utf8_decode (b # b1 # r)
           = units_of_code_point ((unat b - 0xC0) * 64 + cont_bits b1) @ utf8_decode r"
  using assms by (simp add: word_less_nat_alt word_le_nat_alt utf8_decode.simps)

lemma decode_3:
  assumes "0xE0 \<le> unat b" "unat b \<le> 0xEF" "second_ok b b1" "is_cont b2"
  shows "utf8_decode (b # b1 # b2 # r)
           = units_of_code_point ((unat b - 0xE0) * 4096 + cont_bits b1 * 64 + cont_bits b2)
               @ utf8_decode r"
  using assms by (simp add: word_less_nat_alt word_le_nat_alt utf8_decode.simps)

lemma decode_4:
  assumes "0xF0 \<le> unat b" "unat b \<le> 0xF4" "second_ok b b1" "is_cont b2" "is_cont b3"
  shows "utf8_decode (b # b1 # b2 # b3 # r)
           = units_of_code_point ((unat b - 0xF0) * 262144 + cont_bits b1 * 4096
                                    + cont_bits b2 * 64 + cont_bits b3)
               @ utf8_decode r"
  using assms by (simp add: word_less_nat_alt word_le_nat_alt utf8_decode.simps)


lemma split3: "(c::nat) = 4096 * (c div 4096) + 64 * (c div 64 mod 64) + c mod 64"
  using mod_mult2_eq [of c 64 64] div_mult_mod_eq [of c 4096] by simp

lemma split4: "(c::nat) = 262144 * (c div 262144) + 4096 * (c div 4096 mod 64) + 64 * (c div 64 mod 64) + c mod 64"
  using mod_mult2_eq [of c 64 64] mod_mult2_eq [of c 4096 64] div_mult_mod_eq [of c 262144] by simp

lemma two_lead: "(c::nat) < 0x800 \<Longrightarrow> 0x80 \<le> c \<Longrightarrow> 2 \<le> c div 64 \<and> c div 64 < 32"
  by (simp add: div_less_iff_less_mult less_eq_div_iff_mult_less_eq)

lemma three_lead: "(c::nat) < 0x10000 \<Longrightarrow> c div 4096 < 16"
  by (simp add: div_less_iff_less_mult)

lemma three_lo:
  assumes "(c::nat) div 4096 = 0" "0x800 \<le> c" shows "32 \<le> c div 64 mod 64"
proof -
  define m where "m = c div 64 mod 64"
  define r where "r = c mod 64"
  have "c = 4096 * (c div 4096) + 64 * m + r" unfolding m_def r_def by (rule split3)
  moreover have "r < 64" unfolding r_def by simp
  ultimately show ?thesis using assms unfolding m_def [symmetric] by simp
qed

lemma three_hi:
  assumes "(c::nat) div 4096 = 13" "c < 0xD800" shows "c div 64 mod 64 < 32"
proof -
  define m where "m = c div 64 mod 64"
  define r where "r = c mod 64"
  have "c = 4096 * (c div 4096) + 64 * m + r" unfolding m_def r_def by (rule split3)
  then show ?thesis using assms unfolding m_def [symmetric] by simp
qed

lemma four_lead: "(c::nat) < 0x110000 \<Longrightarrow> c div 262144 \<le> 4"
  using div_less_iff_less_mult [of 262144 c 5] by simp

lemma four_lo:
  assumes "(c::nat) div 262144 = 0" "0x10000 \<le> c" shows "16 \<le> c div 4096 mod 64"
proof -
  define m1 where "m1 = c div 4096 mod 64"
  define m2 where "m2 = c div 64 mod 64"
  define r where "r = c mod 64"
  have "c = 262144 * (c div 262144) + 4096 * m1 + 64 * m2 + r" unfolding m1_def m2_def r_def by (rule split4)
  moreover have "r < 64" "m2 < 64" unfolding r_def m2_def by simp_all
  ultimately show ?thesis using assms unfolding m1_def [symmetric] by simp
qed

lemma four_hi:
  assumes "(c::nat) div 262144 = 4" "c < 0x110000" shows "c div 4096 mod 64 < 16"
proof -
  define m1 where "m1 = c div 4096 mod 64"
  define m2 where "m2 = c div 64 mod 64"
  define r where "r = c mod 64"
  have "c = 262144 * (c div 262144) + 4096 * m1 + 64 * m2 + r" unfolding m1_def m2_def r_def by (rule split4)
  then show ?thesis using assms unfolding m1_def [symmetric] by simp
qed


declare utf8_decode.simps [simp del]

lemma decode_code_point:
  assumes c: "c < 0x110000" and ns: "c < 0xD800 \<or> 0xDFFF < c"
  shows "utf8_decode (utf8_of_code_point c @ rest) = units_of_code_point c @ utf8_decode rest"
proof -
  have m64: "c mod 64 < 64" "c div 64 mod 64 < 64" "c div 4096 mod 64 < 64" by simp_all
  consider (one) "c < 0x80" | (two) "0x80 \<le> c" "c < 0x800"
    | (three) "0x800 \<le> c" "c < 0x10000" | (four) "0x10000 \<le> c"
    by linarith
  then show ?thesis
  proof cases
    case one
    then have u: "unat (of_nat c :: byte) = c" by (simp add: unat_of_nat_byte)
    have "utf8_decode (of_nat c # rest) = of_nat (unat (of_nat c :: byte)) # utf8_decode rest"
      by (rule decode_1) (simp add: u one)
    with one u show ?thesis
      by (simp add: utf8_of_code_point_def units_of_code_point_def)
  next
    case two
    note lead = two_lead [OF two(2) two(1)]
    define b0 :: byte where "b0 = of_nat (0xC0 + c div 64)"
    define b1 :: byte where "b1 = of_nat (0x80 + c mod 64)"
    have u0: "unat b0 = 0xC0 + c div 64" unfolding b0_def using lead by (intro unat_of_nat_byte) simp
    have u1: "unat b1 = 0x80 + c mod 64" unfolding b1_def using m64 by (intro unat_of_nat_byte) simp
    have enc: "utf8_of_code_point c = [b0, b1]"
      using two by (simp add: utf8_of_code_point_def b0_def b1_def del: of_nat_add of_nat_numeral)
    have r0: "0xC2 \<le> unat b0" "unat b0 \<le> 0xDF" using lead u0 by simp_all
    have c1: "is_cont b1" using u1 m64 by (simp add: is_cont_nat)
    have "(unat b0 - 0xC0) * 64 + cont_bits b1 = c" using u0 u1 by (simp add: cont_bits_def)
    with decode_2 [OF r0 c1, of rest] enc show ?thesis by simp
  next
    case three
    note lead = three_lead [OF three(2)]
    define b0 :: byte where "b0 = of_nat (0xE0 + c div 4096)"
    define b1 :: byte where "b1 = of_nat (0x80 + c div 64 mod 64)"
    define b2 :: byte where "b2 = of_nat (0x80 + c mod 64)"
    have u0: "unat b0 = 0xE0 + c div 4096" unfolding b0_def using lead by (intro unat_of_nat_byte) simp
    have u1: "unat b1 = 0x80 + c div 64 mod 64" unfolding b1_def using m64 by (intro unat_of_nat_byte) simp
    have u2: "unat b2 = 0x80 + c mod 64" unfolding b2_def using m64 by (intro unat_of_nat_byte) simp
    have enc: "utf8_of_code_point c = [b0, b1, b2]"
      using three by (simp add: utf8_of_code_point_def b0_def b1_def b2_def del: of_nat_add of_nat_numeral)
    have r0: "0xE0 \<le> unat b0" "unat b0 \<le> 0xEF" using lead u0 by simp_all
    have lo: "c div 4096 = 0 \<Longrightarrow> 32 \<le> c div 64 mod 64" by (rule three_lo [OF _ three(1)])
    have below: "c div 4096 = 13 \<Longrightarrow> c < 0xD800"
    proof -
      assume d: "c div 4096 = 13"
      have "c < 14 * 4096" using div_less_iff_less_mult [of 4096 c 14] d by simp
      with ns show ?thesis by simp
    qed
    have hi: "c div 4096 = 13 \<Longrightarrow> c div 64 mod 64 < 32" using below by (simp add: three_hi)
    have s1: "second_ok b0 b1" unfolding second_ok_nat u0 u1 using lo hi m64 lead by auto
    have c2: "is_cont b2" using u2 m64 by (simp add: is_cont_nat)
    have "(unat b0 - 0xE0) * 4096 + cont_bits b1 * 64 + cont_bits b2 = c"
      unfolding cont_bits_def u0 u1 u2 using split3 [of c] by simp
    with decode_3 [OF r0 s1 c2, of rest] enc three show ?thesis by simp
  next
    case four
    note lead = four_lead [OF c]
    define b0 :: byte where "b0 = of_nat (0xF0 + c div 262144)"
    define b1 :: byte where "b1 = of_nat (0x80 + c div 4096 mod 64)"
    define b2 :: byte where "b2 = of_nat (0x80 + c div 64 mod 64)"
    define b3 :: byte where "b3 = of_nat (0x80 + c mod 64)"
    have u0: "unat b0 = 0xF0 + c div 262144" unfolding b0_def using lead by (intro unat_of_nat_byte) simp
    have u1: "unat b1 = 0x80 + c div 4096 mod 64" unfolding b1_def using m64 by (intro unat_of_nat_byte) simp
    have u2: "unat b2 = 0x80 + c div 64 mod 64" unfolding b2_def using m64 by (intro unat_of_nat_byte) simp
    have u3: "unat b3 = 0x80 + c mod 64" unfolding b3_def using m64 by (intro unat_of_nat_byte) simp
    have enc: "utf8_of_code_point c = [b0, b1, b2, b3]"
      using four by (simp add: utf8_of_code_point_def b0_def b1_def b2_def b3_def del: of_nat_add of_nat_numeral)
    have r0: "0xF0 \<le> unat b0" "unat b0 \<le> 0xF4" using lead u0 by simp_all
    have lo: "c div 262144 = 0 \<Longrightarrow> 16 \<le> c div 4096 mod 64" by (rule four_lo [OF _ four])
    have hi: "c div 262144 = 4 \<Longrightarrow> c div 4096 mod 64 < 16" by (rule four_hi [OF _ c])
    have s1: "second_ok b0 b1" unfolding second_ok_nat u0 u1 using lo hi m64 lead by auto
    have c2: "is_cont b2" using u2 m64 by (simp add: is_cont_nat)
    have c3: "is_cont b3" using u3 m64 by (simp add: is_cont_nat)
    have "(unat b0 - 0xF0) * 262144 + cont_bits b1 * 4096 + cont_bits b2 * 64 + cont_bits b3 = c"
      unfolding cont_bits_def u0 u1 u2 u3 using split4 [of c] by simp
    with decode_4 [OF r0 s1 c2 c3, of rest] enc four show ?thesis by simp
  qed
qed

lemma units_of_unit: "units_of_code_point (unat u) = [u]"
  using unat_unit_lt [of u] by (simp add: units_of_code_point_def)

lemma surrogate_nat:
  "is_high_surrogate u \<longleftrightarrow> 0xD800 \<le> unat u \<and> unat u \<le> 0xDBFF"
  "is_low_surrogate u \<longleftrightarrow> 0xDC00 \<le> unat u \<and> unat u \<le> 0xDFFF"
  by (simp_all add: is_high_surrogate_def is_low_surrogate_def word_le_nat_alt)

lemma pair_split:
  assumes "is_high_surrogate h" "is_low_surrogate l"
  obtains a b where "a < 1024" "b < 1024" "unat h = 0xD800 + a" "unat l = 0xDC00 + b"
    "code_point_of_pair h l = 0x10000 + a * 1024 + b"
proof -
  from assms have hb: "0xD800 \<le> unat h" "unat h \<le> 0xDBFF" and lb: "0xDC00 \<le> unat l" "unat l \<le> 0xDFFF"
    by (simp_all add: surrogate_nat)
  show thesis
  proof (rule that [of "unat h - 0xD800" "unat l - 0xDC00"])
    show "unat h - 0xD800 < 1024" using hb by simp
    show "unat l - 0xDC00 < 1024" using lb by simp
    show "unat h = 0xD800 + (unat h - 0xD800)" using hb by simp
    show "unat l = 0xDC00 + (unat l - 0xDC00)" using lb by simp
    show "code_point_of_pair h l = 0x10000 + (unat h - 0xD800) * 1024 + (unat l - 0xDC00)"
      by (simp add: code_point_of_pair_def)
  qed
qed

lemma pair_bounds:
  assumes "is_high_surrogate h" "is_low_surrogate l"
  shows "0x10000 \<le> code_point_of_pair h l" "code_point_of_pair h l < 0x110000"
proof -
  from assms obtain a b where ab: "a < 1024" "b < 1024"
    and cp: "code_point_of_pair h l = 0x10000 + a * 1024 + b" by (rule pair_split)
  show "0x10000 \<le> code_point_of_pair h l" using cp by simp
  have "a * 1024 \<le> 1023 * 1024" using ab(1) by (intro mult_le_mono1) simp
  then show "code_point_of_pair h l < 0x110000" using cp ab(2) by simp
qed

lemma units_of_pair:
  assumes h: "is_high_surrogate h" and l: "is_low_surrogate l"
  shows "units_of_code_point (code_point_of_pair h l) = [h, l]"
proof -
  from assms obtain a b where ab: "a < 1024" "b < 1024"
    and uh: "unat h = 0xD800 + a" and ul: "unat l = 0xDC00 + b"
    and cp: "code_point_of_pair h l = 0x10000 + a * 1024 + b" by (rule pair_split)
  have d: "(code_point_of_pair h l - 0x10000) div 1024 = a"
    and m: "(code_point_of_pair h l - 0x10000) mod 1024 = b"
    using ab(2) by (simp_all add: cp)
  have "(of_nat (0xD800 + a) :: unit16) = h" "(of_nat (0xDC00 + b) :: unit16) = l"
    unfolding uh [symmetric] ul [symmetric] by simp_all
  moreover have "\<not> code_point_of_pair h l < 0x10000" using cp by simp
  ultimately show ?thesis unfolding units_of_code_point_def d m
    by (simp del: of_nat_add of_nat_numeral)
qed

lemma utf8_decode_encode:
  "well_formed_utf16 s \<Longrightarrow> utf8_decode (utf8_encode s @ rest) = s @ utf8_decode rest"
proof (induction s rule: well_formed_utf16.induct)
  case 1
  then show ?case by simp
next
  case (2 u)
  then have "unat u < 0xD800 \<or> 0xDFFF < unat u" by (auto simp: surrogate_nat)
  moreover have "unat u < 0x110000" using unat_unit_lt [of u] by simp
  ultimately have "utf8_decode (utf8_of_code_point (unat u) @ rest) = [u] @ utf8_decode rest"
    using decode_code_point [of "unat u" rest] by (simp add: units_of_unit)
  with 2 show ?case by simp
next
  case (3 u l us)
  show ?case
  proof (cases "is_high_surrogate u")
    case True
    with 3 have l: "is_low_surrogate l" and wf: "well_formed_utf16 us" by simp_all
    have "utf8_decode (utf8_of_code_point (code_point_of_pair u l) @ utf8_encode us @ rest)
            = [u, l] @ utf8_decode (utf8_encode us @ rest)"
      using decode_code_point [of "code_point_of_pair u l" "utf8_encode us @ rest"]
        pair_bounds [OF True l] by (simp add: units_of_pair [OF True l])
    with 3 True l wf show ?thesis by simp
  next
    case False
    with 3 have nl: "\<not> is_low_surrogate u" and wf: "well_formed_utf16 (l # us)" by simp_all
    from False nl have "unat u < 0xD800 \<or> 0xDFFF < unat u" by (auto simp: surrogate_nat)
    moreover have "unat u < 0x110000" using unat_unit_lt [of u] by simp
    ultimately have
      "utf8_decode (utf8_of_code_point (unat u) @ utf8_encode (l # us) @ rest)
         = [u] @ utf8_decode (utf8_encode (l # us) @ rest)"
      using decode_code_point [of "unat u" "utf8_encode (l # us) @ rest"] by (simp add: units_of_unit)
    with 3 False nl wf show ?thesis by simp
  qed
qed


lemma unhex_hex_digit: "d < 16 \<Longrightarrow> unhex (hex_digit d) = Some d"
  by (simp add: unhex_def hex_digit_def word_le_nat_alt unat_of_nat_unit del: of_nat_add of_nat_numeral)

lemma hex_digit_not_colon: "d < 16 \<Longrightarrow> hex_digit d \<noteq> colon"
  by (simp add: hex_digit_def colon_def word_unat_eq_iff unat_of_nat_unit del: of_nat_add of_nat_numeral)

lemma hex_decode_encode: "hex_decode (hex_encode bs) = bs"
proof (induction bs)
  case Nil then show ?case by (simp add: hex_encode_def)
next
  case (Cons b bs)
  have lt: "unat b < 256" by (rule unat_byte_lt)
  then have d1: "unat b div 16 < 16" and d2: "unat b mod 16 < 16" by auto
  have "of_nat (16 * (unat b div 16) + unat b mod 16) = b" by simp
  with Cons d1 d2 show ?case
    by (simp add: hex_encode_def unhex_hex_digit)
qed

lemma colon_notin_hex_encode: "colon \<notin> set (hex_encode bs)"
proof (induction bs)
  case Nil then show ?case by (simp add: hex_encode_def)
next
  case (Cons b bs)
  have "unat b div 16 < 16" using unat_byte_lt [of b] by auto
  then have 1: "hex_digit (unat b div 16) \<noteq> colon" by (rule hex_digit_not_colon)
  have 2: "hex_digit (unat b mod 16) \<noteq> colon" by (rule hex_digit_not_colon) simp
  from Cons 1 2 show ?case by (auto simp: hex_encode_def)
qed

lemma length_hex_encode: "length (hex_encode bs) = 2 * length bs"
  by (induction bs) (simp_all add: hex_encode_def)

lemma encodeValue_eq:
  "encodeValue rt cfg val g = Inr (token_of rt cfg val (fst (randomBytes 16 g)), snd (randomBytes 16 g))"
  by (simp add: encodeValue_def randomBytes_def createCipheriv_def token_of_def Let_def)

lemma maskPattern_eq: "maskPattern rt cfg t val g = encodeValue rt cfg val g"
  by (cases t) (simp_all add: maskPattern_def)

lemma length_update_final: "length (update_final ks d) = length d"
  by (simp add: update_final_def)

lemma nth_update_final: "i < length d \<Longrightarrow> update_final ks d ! i = d ! i XOR ks i"
  by (simp add: update_final_def)

lemma update_final_twice: "update_final ks (update_final ks d) = d"
  by (rule nth_equalityI) (simp_all add: length_update_final nth_update_final xor.assoc)

lemma split_no_sep: "sep \<notin> set s \<Longrightarrow> split sep s = [s]"
  by (induction s) auto

lemma split_append_sep: "sep \<notin> set a \<Longrightarrow> split sep (a @ sep # b) = a # split sep b"
  by (induction a) auto

lemma decodeValue_two_pieces:
  assumes "colon \<notin> set a"
  shows "decodeValue rt cfg (a @ colon # b)
           = (case split colon b of
                [] \<Rightarrow> Inl TypeError
              | e # _ \<Rightarrow>
                  if length (hex_decode a) = 16
                    then Inr (utf8_decode (update_final (aes256ctr rt (getKey rt cfg) (hex_decode a))
                                (hex_decode e)))
                  else Inl InvalidIV)"
  using assms by (simp add: decodeValue_def split_append_sep createDecipheriv_def split: list.splits)

lemma decodeValue_token:
  "length iv = 16 \<Longrightarrow>
   decodeValue rt cfg (hex_encode iv @ colon # hex_encode bs)
     = Inr (utf8_decode (update_final (aes256ctr rt (getKey rt cfg) iv) bs))"
  by (simp add: decodeValue_two_pieces colon_notin_hex_encode split_no_sep hex_decode_encode)

lemma round_trip_eq: "round_trip rt cfg s g = Inr (utf8_decode (utf8_encode s))"
proof -
  have "length (fst (randomBytes 16 g)) = 16" by (simp add: randomBytes_def)
  then show ?thesis
    by (simp add: round_trip_def encodeValue_eq token_of_def decodeValue_token update_final_twice)
qed

lemma re_digits_prefix_mono: "m \<le> n \<Longrightarrow> re_digits_prefix n v \<Longrightarrow> re_digits_prefix m v"
proof -
  assume mn: "m \<le> n" and h: "re_digits_prefix n v"
  have "set (take m v) \<subseteq> set (take n v)" using mn by (rule set_take_subset_set_take)
  with h mn show ?thesis by (auto simp: re_digits_prefix_def list_all_iff)
qed

lemma regex_loop_misses:
  "list_all (pattern_misses rt val) ps \<Longrightarrow> regex_loop rt cfg ps val g = None"
  by (induction ps) (auto simp: pattern_misses_def split: option.splits)

lemma regex_step_misses:
  "no_pattern_matches rt cfg val \<Longrightarrow>
   (case regexToSanitize cfg of None \<Rightarrow> None | Some res \<Rightarrow> regex_loop rt cfg res val g) = None"
  by (auto simp: no_pattern_matches_def regex_patterns_def regex_loop_misses split: option.splits)

lemma includes_key_None [simp]: "includes_key names None = False"
  by (simp add: includes_key_def split: option.splits)

lemma card_digits: "re_digits_prefix 10 (js ''4111111111111111'')"
  by (simp add: re_digits_prefix_def js_def is_digit_def)

lemma length_utf8_of_code_point: "1 \<le> length (utf8_of_code_point c)"
  by (simp add: utf8_of_code_point_def)

lemma length_utf8_of_pair:
  "is_high_surrogate u \<Longrightarrow> is_low_surrogate l \<Longrightarrow> length (utf8_of_code_point (code_point_of_pair u l)) = 4"
  using pair_bounds(1) [of u l] by (simp add: utf8_of_code_point_def)

lemma length_utf8_encode: "length s \<le> length (utf8_encode s)"
proof (induction s rule: utf8_encode.induct)
  case 1
  then show ?case by simp
next
  case (2 u)
  then show ?case using length_utf8_of_code_point [of "unat u"] by simp
next
  case (3 u l us)
  then show ?case
    using length_utf8_of_code_point [of "unat u"] length_utf8_of_pair [of u l]
    by (auto simp del: utf8_encode.simps simp add: utf8_encode.simps(3))
qed

lemma token_longer: "length val < length (token_of rt cfg val iv)"
  using length_utf8_encode [of val]
  by (simp add: token_of_def length_hex_encode length_update_final)

lemma token_differs: "token_of rt cfg val iv \<noteq> val"
  using token_longer [of val rt cfg iv] by auto

lemma detect_defined: "\<exists>t. detectPatternToSanitize rt (Some k) val = Inr t"
  by (simp add: detectPatternToSanitize_def Let_def)

lemma walk_string_skip:
  "includes_key (fieldsToSkip cfg) (last_key path) \<Longrightarrow> walk_string rt cfg val path g = Inr (val, g)"
  by (simp add: walk_string_def)

lemma last_key_snoc [simp]: "last_key (path @ [k]) = Some k"
  by (simp add: last_key_def)



section \<open>The walker's building blocks\<close>

lemma pieces_partition:
  "matches_in_order pos (length val) ms \<Longrightarrow> concat (map plain (pieces val pos ms)) = drop pos val"
proof (induction ms arbitrary: pos)
  case Nil
  then show ?case by simp
next
  case (Cons m ms)
  obtain i n where m: "m = (i, n)" by (cases m)
  from Cons.prems m have le: "pos \<le> i" and ord: "matches_in_order (i + n) (length val) ms" by simp_all
  have "drop pos val = take (i - pos) (drop pos val) @ drop (i - pos) (drop pos val)"
    by (rule append_take_drop_id [symmetric])
  also have "drop (i - pos) (drop pos val) = drop i val" using le by simp
  also have "drop i val = take n (drop i val) @ drop n (drop i val)"
    by (rule append_take_drop_id [symmetric])
  also have "drop n (drop i val) = drop (i + n) val" by (simp add: add.commute)
  finally show ?case using Cons.IH [OF ord] m by simp
qed

lemma replace_loop_pieces:
  "matches_in_order pos (length val) ms \<Longrightarrow>
   replace_loop (maskPattern rt cfg custom) val ms pos acc g
     = Inr (acc @ fst (mask_pieces rt cfg (pieces val pos ms) g),
            snd (mask_pieces rt cfg (pieces val pos ms) g))"
proof (induction ms arbitrary: pos acc g)
  case Nil
  then show ?case by simp
next
  case (Cons m ms)
  obtain i n where m: "m = (i, n)" by (cases m)
  from Cons.prems m have le: "pos \<le> i" and fit: "i + n \<le> length val"
    and ord: "matches_in_order (i + n) (length val) ms" by simp_all
  from fit have len: "min (length val - i) n = n" and pos: "min i (length val) = i" by simp_all
  show ?case
    using Cons.IH [OF ord] le
    by (simp add: m maskPattern_eq encodeValue_eq len pos Let_def split_beta del: replace_loop.simps
          add: replace_loop.simps(2))
qed

lemma getKey_cap: "getKey rt (cfg\<lparr>maxStringScanLen := m\<rparr>) = getKey rt cfg"
  by (simp add: getKey_def)

lemma maskPattern_cap:
  "maskPattern rt (cfg\<lparr>maxStringScanLen := m\<rparr>) = maskPattern rt cfg"
  by (intro ext) (simp add: maskPattern_eq encodeValue_eq token_of_def getKey_cap)

lemma regex_loop_cap:
  "regex_loop rt (cfg\<lparr>maxStringScanLen := m\<rparr>) ps val g = regex_loop rt cfg ps val g"
  by (induction ps) (simp_all add: maskPattern_cap split: option.splits)

lemma walk_string_cap:
  "walk_string rt (cfg\<lparr>maxStringScanLen := m\<rparr>) val path g = walk_string rt cfg val path g"
  by (simp add: walk_string_def regex_loop_cap maskPattern_cap Let_def
        split: option.splits sum.splits)

lemma walk_ignores_scan_cap:
  fixes v :: "'n json" and kvs :: "(jsstring \<times> 'n json) list"
  shows "walk rt (cfg\<lparr>maxStringScanLen := m\<rparr>) v path g = walk rt cfg v path g"
    and "walk_entries rt (cfg\<lparr>maxStringScanLen := m\<rparr>) kvs path out g
           = walk_entries rt cfg kvs path out g"
proof (induction rt cfg v path g and rt cfg kvs path out g rule: walk_walk_entries.induct)
qed (simp_all add: walk_string_cap split: sum.splits prod.splits)

section \<open>The classifier\<close>

text \<open>
  Claim C9. For every field name and every string value the classifier never returns
  \<open>aadhar\<close>: a value that starts with 12 digits also starts with 10 digits, so the phone
  rule, which is tried first, has already answered.
\<close>

theorem classifier_never_aadhar: "detectPatternToSanitize rt key val \<noteq> Inr aadhar"
proof (cases key)
  case None
  then show ?thesis by (simp add: detectPatternToSanitize_def)
next
  case (Some k)
  have "re_digits_prefix 12 val \<Longrightarrow> re_digits_prefix 10 val"
    by (rule re_digits_prefix_mono) simp_all
  with Some show ?thesis
    by (simp add: detectPatternToSanitize_def Let_def)
qed

text \<open>
  Claim C4 says that the field name \<open>card\<close> with the value \<open>4111111111111111\<close>
  classifies as \<open>credit_card\<close>. The value has 16 digits and passes the Luhn checksum, but
  it starts with 10 digits, so the phone rule answers first: the result is \<open>phone\<close>, and
  under no field name and no runtime is it \<open>credit_card\<close>.
\<close>

theorem luhn_card_classified_phone:
  "length (js ''4111111111111111'') = 16
   \<and> luhnAlgorithm (js ''4111111111111111'')
   \<and> detectPatternToSanitize example_runtime (Some (js ''card'')) (js ''4111111111111111'') = Inr phone
   \<and> detectPatternToSanitize rt (Some k) (js ''4111111111111111'') \<noteq> Inr credit_card"
proof -
  have 1: "length (js ''4111111111111111'') = 16" by (simp add: js_def)
  have 2: "luhnAlgorithm (js ''4111111111111111'')"
    by (simp add: luhnAlgorithm_def js_def parseInt10_def is_digit_def)
  have np: "\<not> re_pan (js ''4111111111111111'')"
    by (simp add: re_pan_def js_def is_upper_def)
  have lk: "toLowerCase example_runtime (js ''card'') = js ''card''"
    by (simp add: example_runtime_def ascii_lower_def js_def is_upper_def)
  have 3: "detectPatternToSanitize example_runtime (Some (js ''card'')) (js ''4111111111111111'') = Inr phone"
    using np card_digits by (simp add: detectPatternToSanitize_def lk) (simp add: js_def starts_with_def)
  have 4: "detectPatternToSanitize rt (Some k) (js ''4111111111111111'') \<noteq> Inr credit_card"
    using card_digits by (simp add: detectPatternToSanitize_def Let_def)
  from 1 2 3 4 show ?thesis by simp
qed

section \<open>The walker\<close>

text \<open>
  Claim C1 says that arrays and non-string scalars appear in the output of \<open>sanitize\<close>.
  On an in-scope route an object holding an array, a number, a boolean and \<open>null\<close> comes
  back with \<open>undefined\<close> under each of the four keys, whatever the runtime, the route
  and the generator.
\<close>

theorem walk_drops_arrays_and_scalars:
  "sanitizeObject rt base_config
     (JObject [(js ''tags'', JArray [JString (js ''a'')]), (js ''age'', JNumber n),
               (js ''ok'', JBool True), (js ''none'', JNull)]) route g
   = Inr (JObject [(js ''tags'', JUndefined), (js ''age'', JUndefined),
                   (js ''ok'', JUndefined), (js ''none'', JUndefined)], g)"
  by (simp add: sanitizeObject_def base_config_def assign_def js_def)

text \<open>
  Claim C10. \<open>sanitizeObject\<close> on a bare string as root value, with the route in scope, no
  configured pattern matching the value and \<open>fieldsToSanitize\<close> absent, throws a
  \<open>TypeError\<close>: the path is empty, the key is \<open>undefined\<close>, and the classifier calls
  \<open>toLowerCase\<close> on it. The skip list cannot exclude the value, since \<open>includes\<close> of
  \<open>undefined\<close> is false.
\<close>

theorem root_string_throws:
  assumes "route_in_scope cfg route" "no_pattern_matches rt cfg val" "fieldsToSanitize cfg = None"
  shows "sanitizeObject rt cfg (JString val) route g = Inl TypeError"
proof -
  have "walk_string rt cfg val [] g = Inl TypeError"
    using assms(3) regex_step_misses [OF assms(2)]
    by (simp add: walk_string_def last_key_def detectPatternToSanitize_def)
  moreover have "sanitizeObject rt cfg (JString val) route g = walk rt cfg (JString val) [] g"
    using assms(1) by (auto simp: sanitizeObject_def route_in_scope_def split: option.splits)
  ultimately show ?thesis by simp
qed

theorem root_string_throws_witness:
  "route_in_scope base_config (js ''/signup'')
   \<and> no_pattern_matches example_runtime base_config (js ''hello'')
   \<and> fieldsToSanitize base_config = None
   \<and> sanitizeObject example_runtime base_config (JString (js ''hello'') :: nat json)
         (js ''/signup'') example_rng
       = Inl TypeError"
proof -
  have 1: "route_in_scope base_config (js ''/signup'')" by (simp add: route_in_scope_def base_config_def)
  have 2: "no_pattern_matches example_runtime base_config (js ''hello'')"
    by (simp add: no_pattern_matches_def regex_patterns_def base_config_def)
  have 3: "fieldsToSanitize base_config = None" by (simp add: base_config_def)
  note w = root_string_throws [OF 1 2 3, where g = example_rng and 'b = nat]
  from w 1 2 3 show ?thesis by blast
qed

text \<open>
  Claim C6. A string leaf whose field name is in \<open>fieldsToSkip\<close> is returned unchanged,
  and the generator is not touched, whatever the patterns, \<open>fieldsToSanitize\<close> and the
  classifier would say: nothing else of the configuration is assumed. The second part is
  the same leaf as the only entry of an object.
\<close>

theorem skip_list_wins:
  assumes "fieldsToSkip cfg = Some sk" and "k \<in> set sk"
  shows "walk rt cfg (JString val) (path @ [k]) g = Inr (JString val, g)
       \<and> walk rt cfg (JObject [(k, JString val)]) path g
           = Inr (JObject (assign [] k (JString val)), g)"
proof -
  have "includes_key (fieldsToSkip cfg) (last_key (path @ [k]))"
    using assms by (simp add: includes_key_def)
  then have "walk_string rt cfg val (path @ [k]) g = Inr (val, g)" by (rule walk_string_skip)
  then show ?thesis by simp
qed

theorem skip_list_wins_witness:
  "fieldsToSkip skip_config = Some [js ''email'']
   \<and> js ''email'' \<in> set [js ''email'']
   \<and> walk example_runtime skip_config (JString (js ''john@example.com'') :: nat json)
         ([] @ [js ''email'']) example_rng
       = Inr (JString (js ''john@example.com''), example_rng)
   \<and> walk example_runtime skip_config
         (JObject [(js ''email'', JString (js ''john@example.com''))] :: nat json) [] example_rng
       = Inr (JObject [(js ''email'', JString (js ''john@example.com''))], example_rng)"
proof -
  have 1: "fieldsToSkip skip_config = Some [js ''email'']" by (simp add: skip_config_def)
  have 2: "js ''email'' \<in> set [js ''email'']" by simp
  have 3: "assign [] (js ''email'') v = [(js ''email'', v)]" for v :: "nat json"
    by (simp add: assign_def js_def)
  note w = skip_list_wins [OF 1 2, where rt = example_runtime and val = "js ''john@example.com''"
                             and path = "[]" and g = example_rng and 'c = nat]
  from w 1 2 show ?thesis unfolding 3 by blast
qed

text \<open>
  Claim C3. With \<open>fieldsToSanitize\<close> configured, at the third rule of the precedence
  (the leaf is not skipped and no configured pattern matches it), a string leaf is
  replaced by its token when its field name is in the list and is returned unchanged when
  it is not; the classifier's answer plays no part. The token differs from the value, so
  the leaf is masked exactly when its name is listed.
\<close>

theorem explicit_fields_exclusive:
  assumes "fieldsToSanitize cfg = Some fs"
    and "\<not> includes_key (fieldsToSkip cfg) (last_key path)"
    and "no_pattern_matches rt cfg val"
  shows "walk rt cfg (JString val) path g =
           (if includes_key (Some fs) (last_key path)
            then Inr (JString (token_of rt cfg val (fst (randomBytes 16 g))), snd (randomBytes 16 g))
            else Inr (JString val, g))
       \<and> token_of rt cfg val (fst (randomBytes 16 g)) \<noteq> val"
proof (cases "includes_key (Some fs) (last_key path)")
  case True
  then obtain k where k: "last_key path = Some k" by (auto simp: includes_key_def split: option.splits)
  obtain t where t: "detectPatternToSanitize rt (Some k) val = Inr t" using detect_defined by blast
  have "walk_string rt cfg val path g
          = Inr (token_of rt cfg val (fst (randomBytes 16 g)), snd (randomBytes 16 g))"
    using assms(1,2) True regex_step_misses [OF assms(3)] k t
    by (simp add: walk_string_def maskPattern_eq encodeValue_eq)
  with True show ?thesis by (simp add: token_differs)
next
  case False
  have "walk_string rt cfg val path g = Inr (val, g)"
    using assms(1,2) False regex_step_misses [OF assms(3)]
    by (simp add: walk_string_def)
  with False show ?thesis by (simp add: token_differs)
qed

theorem explicit_fields_exclusive_witness:
  "fieldsToSanitize explicit_config = Some [js ''password'']
   \<and> \<not> includes_key (fieldsToSkip explicit_config) (last_key [js ''email''])
   \<and> \<not> includes_key (fieldsToSkip explicit_config) (last_key [js ''password''])
   \<and> no_pattern_matches example_runtime explicit_config (js ''john@example.com'')
   \<and> no_pattern_matches example_runtime explicit_config (js ''hello'')
   \<and> detectPatternToSanitize example_runtime (Some (js ''email'')) (js ''john@example.com'') = Inr email
   \<and> walk example_runtime explicit_config (JString (js ''john@example.com'') :: nat json) [js ''email''] example_rng
       = Inr (JString (js ''john@example.com''), example_rng)
   \<and> walk example_runtime explicit_config (JString (js ''hello'') :: nat json) [js ''password''] example_rng
       = Inr (JString (token_of example_runtime explicit_config (js ''hello'')
                         (fst (randomBytes 16 example_rng))), snd (randomBytes 16 example_rng))"
proof -
  have 1: "fieldsToSanitize explicit_config = Some [js ''password'']"
    by (simp add: explicit_config_def)
  have 2: "\<not> includes_key (fieldsToSkip explicit_config) (last_key p)" for p
    by (simp add: explicit_config_def base_config_def includes_key_def)
  have 3: "no_pattern_matches example_runtime explicit_config v" for v
    by (simp add: no_pattern_matches_def regex_patterns_def explicit_config_def base_config_def)
  have 4: "\<not> includes_key (Some [js ''password'']) (last_key [js ''email''])"
    by (simp add: includes_key_def last_key_def js_def)
  have 5: "includes_key (Some [js ''password'']) (last_key [js ''password''])"
    by (simp add: includes_key_def last_key_def)
  have 6: "detectPatternToSanitize example_runtime (Some (js ''email'')) (js ''john@example.com'') = Inr email"
    by (simp add: detectPatternToSanitize_def example_runtime_def ascii_lower_def js_def
          is_upper_def is_lower_def is_digit_def re_pan_def re_digits_prefix_def starts_with_def
          re_email_def is_local_char_def is_alnum_def is_alpha_def)
  note a = explicit_fields_exclusive [where path = "[js ''email'']" and rt = example_runtime
             and val = "js ''john@example.com''" and g = example_rng and 'b = nat, OF 1 2 3]
  note b = explicit_fields_exclusive [where path = "[js ''password'']" and rt = example_runtime
             and val = "js ''hello''" and g = example_rng and 'b = nat, OF 1 2 3]
  from a 4 have a': "walk example_runtime explicit_config (JString (js ''john@example.com'') :: nat json) [js ''email''] example_rng
       = Inr (JString (js ''john@example.com''), example_rng)" by (simp only: if_False)
  from b 5 have b': "walk example_runtime explicit_config (JString (js ''hello'') :: nat json) [js ''password''] example_rng
       = Inr (JString (token_of example_runtime explicit_config (js ''hello'')
                         (fst (randomBytes 16 example_rng))), snd (randomBytes 16 example_rng))"
    by (simp only: if_True)
  from a' b' 1 2 3 6 show ?thesis by blast
qed

text \<open>
  Claim C5. For a string leaf that is not skipped, let \<open>p\<close> be the first configured
  pattern with a match in the value, the earlier ones compiling and having none. Then
  the result is the value with every match of \<open>p\<close> replaced by its own token and the
  text between the matches kept; it is what \<open>replace\<close> with the \<open>custom\<close> mask as
  callback returns; and the pieces, read without masking, are the value again. The
  patterns after \<open>p\<close> are arbitrary: they are not tried.
\<close>

theorem first_matching_pattern_masks_each_match:
  assumes "\<not> includes_key (fieldsToSkip cfg) (last_key path)"
    and "regexToSanitize cfg = Some (earlier @ p # later)"
    and "list_all (pattern_misses rt val) earlier"
    and "regexp_g rt p = Some re"
    and "re val \<noteq> []"
    and "matches_in_order 0 (length val) (re val)"
  shows "walk rt cfg (JString val) path g
           = Inr (JString (fst (mask_pieces rt cfg (pieces val 0 (re val)) g)),
                  snd (mask_pieces rt cfg (pieces val 0 (re val)) g))
       \<and> walk rt cfg (JString val) path g
           = (case replace_fn val (re val) (maskPattern rt cfg custom) g of
                Inl e \<Rightarrow> Inl e | Inr (s, g') \<Rightarrow> Inr (JString s, g'))
       \<and> concat (map plain (pieces val 0 (re val))) = val"
proof -
  have loop: "regex_loop rt cfg (earlier @ p # later) val g
                = Some (replace_fn val (re val) (maskPattern rt cfg custom) g)"
    using assms(3,4,5)
    by (induction earlier) (auto simp: pattern_misses_def split: option.splits)
  have ws: "walk_string rt cfg val path g = replace_fn val (re val) (maskPattern rt cfg custom) g"
    using assms(1,2) loop by (simp add: walk_string_def)
  have rp: "replace_fn val (re val) (maskPattern rt cfg custom) g
              = Inr (fst (mask_pieces rt cfg (pieces val 0 (re val)) g),
                     snd (mask_pieces rt cfg (pieces val 0 (re val)) g))"
    using replace_loop_pieces [OF assms(6), of rt cfg "[]" g] by (simp add: replace_fn_def)
  have "concat (map plain (pieces val 0 (re val))) = val"
    using pieces_partition [OF assms(6)] by simp
  with ws rp show ?thesis by (simp add: split_beta)
qed


theorem first_matching_pattern_masks_each_match_witness:
  "\<not> includes_key (fieldsToSkip regex_config) (last_key [js ''note''])
   \<and> regexToSanitize regex_config = Some ([js ''zzz''] @ js ''secret'' # [js ''(''])
   \<and> list_all (pattern_misses example_runtime (js ''my secret and secret code'')) [js ''zzz'']
   \<and> regexp_g example_runtime (js ''secret'') = Some (\<lambda>s. literal_matches (js ''secret'') s 0 0)
   \<and> regexp_g example_runtime (js ''('') = None
   \<and> literal_matches (js ''secret'') (js ''my secret and secret code'') 0 0 = [(3, 6), (14, 6)]
   \<and> matches_in_order 0 (length (js ''my secret and secret code''))
         (literal_matches (js ''secret'') (js ''my secret and secret code'') 0 0)
   \<and> result_value (walk example_runtime regex_config
                       (JString (js ''my secret and secret code'') :: nat json) [js ''note''] example_rng)
       = Inr (JString (js ''my 05162738495a6b7c8d9eafc0d1e2f304:021a2f3a4158 and 15263748596a7b8c9daebfd0e1f20314:122a3f4a5168 code''))"
proof -
  let ?v = "js ''my secret and secret code''"
  let ?re = "\<lambda>s. literal_matches (js ''secret'') s 0 0"
  have 1: "\<not> includes_key (fieldsToSkip regex_config) (last_key [js ''note''])"
    by (simp add: regex_config_def base_config_def includes_key_def)
  have 2: "regexToSanitize regex_config = Some ([js ''zzz''] @ js ''secret'' # [js ''(''])"
    by (simp add: regex_config_def)
  have 3: "list_all (pattern_misses example_runtime ?v) [js ''zzz'']"
    by code_simp
  have 4: "regexp_g example_runtime (js ''secret'') = Some ?re"
    by (simp add: example_runtime_def literal_regexp_def js_def is_alnum_def is_lower_def)
  have 5: "regexp_g example_runtime (js ''('') = None"
    by (simp add: example_runtime_def literal_regexp_def js_def is_alnum_def is_lower_def
          is_upper_def is_digit_def)
  have 6: "?re ?v = [(3, 6), (14, 6)]" by code_simp
  then have 7: "?re ?v \<noteq> []" by simp
  have 8: "matches_in_order 0 (length ?v) (?re ?v)" unfolding 6 by (simp add: js_def)
  have 9: "fst (mask_pieces example_runtime regex_config (pieces ?v 0 [(3, 6), (14, 6)]) example_rng)
             = js ''my 05162738495a6b7c8d9eafc0d1e2f304:021a2f3a4158 and 15263748596a7b8c9daebfd0e1f20314:122a3f4a5168 code''"
    by code_simp
  note w = first_matching_pattern_masks_each_match [where rt = example_runtime and g = example_rng
             and 'c = nat, OF 1 2 3 4 7 8]
  from w have "walk example_runtime regex_config (JString ?v :: nat json) [js ''note''] example_rng
                 = Inr (JString (fst (mask_pieces example_runtime regex_config (pieces ?v 0 (?re ?v)) example_rng)),
                        snd (mask_pieces example_runtime regex_config (pieces ?v 0 (?re ?v)) example_rng))"
    by (rule conjunct1)
  then have "result_value (walk example_runtime regex_config (JString ?v :: nat json) [js ''note''] example_rng)
                 = Inr (JString (fst (mask_pieces example_runtime regex_config (pieces ?v 0 (?re ?v)) example_rng)))"
    by (simp only: result_value_def sum.case prod.case)
  then have 10: "result_value (walk example_runtime regex_config (JString ?v :: nat json) [js ''note''] example_rng)
       = Inr (JString (js ''my 05162738495a6b7c8d9eafc0d1e2f304:021a2f3a4158 and 15263748596a7b8c9daebfd0e1f20314:122a3f4a5168 code''))"
    unfolding 6 9 .
  from 1 2 3 4 5 6 8 10 show ?thesis by blast
qed

text \<open>
  Claim C8 says that a value longer than \<open>maxStringScanLen\<close> is not scanned against the
  patterns. With the cap at 4, a value of 14 code units is scanned and its match is
  replaced: \<open>walk\<close> never reads the cap (lemma \<open>walk_ignores_scan_cap\<close>).
\<close>

theorem scan_cap_not_applied:
  "maxStringScanLen capped_config = Some 4
   \<and> length (js ''my secret code'') = 14
   \<and> result_value (walk example_runtime capped_config
                       (JString (js ''my secret code'') :: nat json) [js ''note''] example_rng)
       = Inr (JString (js ''my 05162738495a6b7c8d9eafc0d1e2f304:021a2f3a4158 code''))"
proof -
  have 1: "maxStringScanLen capped_config = Some 4" by (simp add: capped_config_def)
  have 2: "length (js ''my secret code'') = 14" by (simp add: js_def)
  have 3: "result_value (walk example_runtime capped_config
                       (JString (js ''my secret code'') :: nat json) [js ''note''] example_rng)
       = Inr (JString (js ''my 05162738495a6b7c8d9eafc0d1e2f304:021a2f3a4158 code''))"
    by code_simp
  from 1 2 3 show ?thesis by blast
qed

section \<open>The codec\<close>

text \<open>
  Claim C2 says that decoding the token of \<open>s\<close> gives \<open>s\<close> for every string. The
  string that is one unpaired high surrogate is written to UTF-8 as U+FFFD, and comes back
  as U+FFFD.
\<close>

theorem round_trip_lone_surrogate:
  "signingSecret base_config \<noteq> []
   \<and> round_trip example_runtime base_config [0xD800] example_rng = Inr [0xFFFD]
   \<and> round_trip example_runtime base_config [0xD800] example_rng \<noteq> Inr [0xD800]"
proof -
  have 1: "signingSecret base_config \<noteq> []" by (simp add: base_config_def js_def)
  have 2: "round_trip example_runtime base_config [0xD800] example_rng = Inr [0xFFFD]"
    by (simp add: round_trip_eq is_high_surrogate_def utf8_decode.simps second_ok_def is_cont_def
          units_of_code_point_def cont_bits_def)
  from 1 2 show ?thesis by simp
qed

text \<open>
  Claim C2, amended: for every well-formed UTF-16 string (every surrogate is half of a
  pair), every secret and every IV drawn, decoding the token of \<open>s\<close> returns \<open>s\<close>.
\<close>

theorem round_trip_well_formed:
  assumes "well_formed_utf16 s"
  shows "round_trip rt cfg s g = Inr s"
  using utf8_decode_encode [OF assms, of "[]"] by (simp add: round_trip_eq utf8_decode.simps)

theorem round_trip_well_formed_witness:
  "well_formed_utf16 [0xD83D, 0xDE00, 0x20AC, 0xE9, 0x41]
   \<and> round_trip example_runtime base_config [0xD83D, 0xDE00, 0x20AC, 0xE9, 0x41] example_rng
       = Inr [0xD83D, 0xDE00, 0x20AC, 0xE9, 0x41]"
proof -
  have 1: "well_formed_utf16 [0xD83D, 0xDE00, 0x20AC, 0xE9, 0x41]"
    by (simp add: is_high_surrogate_def is_low_surrogate_def)
  from round_trip_well_formed [OF 1] 1 show ?thesis by blast
qed




end
